theory Spec2Isabelle
  imports Main "HOL-Library.AList"
begin

section \<open>Errors raised by the analysed functions\<close>

text \<open>
  The exceptions of \<^verbatim>\<open>abstract_utils.py\<close> and of the modules it calls, as
  values. \<open>GenericTypeError\<close> carries the class the error is reported on
  (\<^verbatim>\<open>annot\<close>) and the message (\<^verbatim>\<open>error\<close>). \<open>AttributeError\<close> stands for
  a method call on a value that does not have the method (a call on \<^verbatim>\<open>None\<close>).
\<close>

datatype 'c error =
    GenericTypeError 'c string
  | TooComplexError
  | MROError
  | KeyError
  | AttributeError

section \<open>Merging two bindings of a type parameter: \<^verbatim>\<open>_merge_type\<close>\<close>

text \<open>
  Abstract values are objects compared by identity, so a value is modelled by its
  identity \<open>'v\<close> and its attributes are read through the object store.
  \<^verbatim>\<open>_merge_type\<close> reads two attributes of a type value: whether it is the
  \<^verbatim>\<open>Unsolvable\<close> placeholder (\<^verbatim>\<open>isinstance_Unsolvable()\<close>) and its
  linearization (\<^verbatim>\<open>mro\<close>). \<^verbatim>\<open>None\<close> is the absent value.
\<close>

record 'v type_attrs =
  isinstance_Unsolvable :: "'v \<Rightarrow> bool"
  mro :: "'v \<Rightarrow> 'v list"

definition merge_type ::
  "'v type_attrs \<Rightarrow> 'v option \<Rightarrow> 'v option \<Rightarrow> string \<Rightarrow> 'c \<Rightarrow> 'c error + 'v option"
where
  "merge_type h t0 t1 name cls =
     (case t0 of
        None \<Rightarrow> Inr t1
      | Some v0 \<Rightarrow>
          if isinstance_Unsolvable h v0 then Inr t1
          else (case t1 of
                  None \<Rightarrow> Inr t0
                | Some v1 \<Rightarrow>
                    if isinstance_Unsolvable h v1 then Inr t0
                    else if v0 \<in> set (mro h v1) then Inr t1
                    else if v1 \<in> set (mro h v0) then Inr t0
                    else Inl (GenericTypeError cls
                                (''Conflicting value for TypeVar '' @ name))))"

text \<open>A type value is a wildcard when it is absent (\<^verbatim>\<open>None\<close>) or \<^verbatim>\<open>Unsolvable\<close>.\<close>

definition is_wildcard :: "'v type_attrs \<Rightarrow> 'v option \<Rightarrow> bool" where
  "is_wildcard h t = (case t of None \<Rightarrow> True | Some v \<Rightarrow> isinstance_Unsolvable h v)"

text \<open>\<open>ancestor_or_self h a b\<close>: \<open>a\<close> appears in the linearization of \<open>b\<close>.\<close>

definition ancestor_or_self :: "'v type_attrs \<Rightarrow> 'v option \<Rightarrow> 'v option \<Rightarrow> bool" where
  "ancestor_or_self h a b =
     (case (a, b) of (Some x, Some y) \<Rightarrow> x \<in> set (mro h y) | _ \<Rightarrow> False)"

text \<open>
  A small universe of type values for concrete evaluation: \<^verbatim>\<open>object\<close>, \<^verbatim>\<open>int\<close>,
  \<^verbatim>\<open>bool\<close> (a subclass of \<^verbatim>\<open>int\<close>), \<^verbatim>\<open>str\<close> and the \<^verbatim>\<open>Unsolvable\<close>
  placeholder, each with its linearization.
\<close>

definition builtin_types :: "string type_attrs" where
  "builtin_types =
     \<lparr>isinstance_Unsolvable = (\<lambda>v. v = ''?''),
      mro = (\<lambda>v. if v = ''bool'' then [''bool'', ''int'', ''object'']
                  else if v = ''object'' then [''object'']
                  else [v, ''object''])\<rparr>"

section \<open>Applying queued mutations: \<^verbatim>\<open>apply_mutations\<close>\<close>

text \<open>
  A program point. The control-flow graph keeps its nodes in creation order; a node is
  identified by its position there.
\<close>

record cfg_node =
  node_id :: nat
  node_name :: string

record cfg =
  cfg_nodes :: "cfg_node list"
  cfg_edges :: "(nat \<times> nat) list"

text \<open>
  Modelled from the spec: \<^verbatim>\<open>Node.ConnectNew(label) -> Node\<close> of the value-graph
  substrate (\<^verbatim>\<open>pytype/typegraph/cfg.py\<close>, not among the sources): it creates one
  new node labelled \<open>label\<close>, reachable from the node it is called on, and returns it.
\<close>

definition ConnectNew :: "cfg \<Rightarrow> cfg_node \<Rightarrow> string \<Rightarrow> cfg_node \<times> cfg" where
  "ConnectNew g node label =
     (let new = \<lparr>node_id = length (cfg_nodes g), node_name = label\<rparr>
      in (new, g\<lparr>cfg_nodes := cfg_nodes g @ [new],
                 cfg_edges := cfg_edges g @ [(node_id node, node_id new)]\<rparr>))"

text \<open>
  The loop of \<^verbatim>\<open>apply_mutations\<close> over the triples \<^verbatim>\<open>(obj, name, value)\<close> that
  \<^verbatim>\<open>get_mutations()\<close> yields. \<open>num_mutations\<close> is the counter of the source.
  \<^verbatim>\<open>obj.merge_instance_type_parameter(node, name, value)\<close> belongs to the value
  classes (not among the sources); it is the parameter \<open>mitp\<close>, a transformer of the
  state \<open>'s\<close> of the analysed objects.
\<close>

fun apply_mutations_loop ::
  "('o \<Rightarrow> cfg_node \<Rightarrow> string \<Rightarrow> 'v \<Rightarrow> 's \<Rightarrow> 's) \<Rightarrow> cfg \<times> 's \<Rightarrow> cfg_node \<Rightarrow> nat \<Rightarrow>
   ('o \<times> string \<times> 'v) list \<Rightarrow> cfg_node \<times> cfg \<times> 's \<times> nat"
where
  "apply_mutations_loop mitp (g, s) node num_mutations [] = (node, g, s, num_mutations)"
| "apply_mutations_loop mitp (g, s) node num_mutations ((obj, name, val) # rest) =
     (let (node1, g1) =
            (if num_mutations = 0 then ConnectNew g node (node_name node) else (node, g));
          num1 = num_mutations + 1;
          s1 = mitp obj node1 name val s
      in apply_mutations_loop mitp (g1, s1) node1 num1 rest)"

definition apply_mutations ::
  "('o \<Rightarrow> cfg_node \<Rightarrow> string \<Rightarrow> 'v \<Rightarrow> 's \<Rightarrow> 's) \<Rightarrow> cfg \<times> 's \<Rightarrow> cfg_node \<Rightarrow>
   ('o \<times> string \<times> 'v) list \<Rightarrow> cfg_node \<times> cfg \<times> 's"
where
  "apply_mutations mitp gs node get_mutations =
     (case apply_mutations_loop mitp gs node 0 get_mutations of
        (node', g', s', _) \<Rightarrow> (node', g', s'))"

text \<open>Applying a list of mutations, all against one node.\<close>

definition apply_all_at ::
  "('o \<Rightarrow> cfg_node \<Rightarrow> string \<Rightarrow> 'v \<Rightarrow> 's \<Rightarrow> 's) \<Rightarrow> cfg_node \<Rightarrow> ('o \<times> string \<times> 'v) list \<Rightarrow> 's \<Rightarrow> 's"
where
  "apply_all_at mitp node ms s = foldl (\<lambda>s (obj, name, val). mitp obj node name val s) s ms"

text \<open>
  A concrete instance for evaluation: the object state is the list of the calls of
  \<^verbatim>\<open>merge_instance_type_parameter\<close> made so far, with the node each was made at.
\<close>

definition record_call ::
  "string \<Rightarrow> cfg_node \<Rightarrow> string \<Rightarrow> string \<Rightarrow> (string \<times> nat \<times> string \<times> string) list \<Rightarrow>
   (string \<times> nat \<times> string \<times> string) list"
where
  "record_call obj node name val s = s @ [(obj, node_id node, name, val)]"

definition root_graph :: cfg where
  "root_graph = \<lparr>cfg_nodes = [\<lparr>node_id = 0, node_name = ''root''\<rparr>], cfg_edges = []\<rparr>"

section \<open>Enumerating views: \<^verbatim>\<open>get_views\<close>\<close>

subsection \<open>The value graph\<close>

text \<open>
  Variables and bindings are objects of the value graph, compared by identity. A
  variable is identified by a number; a binding by the variable it belongs to
  (\<^verbatim>\<open>binding.variable\<close>) and its position in that variable's append-only list of
  bindings. What a binding holds is kept in the program's store.
\<close>

datatype binding = Binding (variable: nat) (position: nat)

record 'd cell =
  data :: 'd
  origin :: cfg_node
  source_set :: "binding list"

record 'd program =
  default_data :: 'd
  var_cells :: "nat \<Rightarrow> 'd cell list"

text \<open>\<^verbatim>\<open>var.bindings\<close>: the bindings of a variable, in the order they were added.\<close>

definition bindings :: "'d program \<Rightarrow> nat \<Rightarrow> binding list" where
  "bindings p v = map (Binding v) [0..<length (var_cells p v)]"

text \<open>\<^verbatim>\<open>binding.data\<close>; \<open>None\<close> for a binding the store does not hold.\<close>

definition binding_cell :: "'d program \<Rightarrow> binding \<Rightarrow> 'd cell option" where
  "binding_cell p b =
     (if position b < length (var_cells p (variable b))
      then Some (var_cells p (variable b) ! position b) else None)"

text \<open>
  Modelled from the spec: \<^verbatim>\<open>Variable.AddBinding(value, sources, node) -> Binding\<close>
  of the value-graph substrate (\<^verbatim>\<open>pytype/typegraph/cfg.py\<close>, not among the
  sources). A variable is an append-only ordered collection of bindings, and a binding is
  a value with its origin node and the source bindings it depends on: the call appends
  one binding to the variable and returns it.
\<close>

definition AddBinding ::
  "'d program \<Rightarrow> nat \<Rightarrow> 'd \<Rightarrow> binding list \<Rightarrow> cfg_node \<Rightarrow> binding \<times> 'd program"
where
  "AddBinding p v d srcs node =
     (Binding v (length (var_cells p v)),
      p\<lparr>var_cells := (var_cells p)
           (v := var_cells p v @ [\<lparr>data = d, origin = node, source_set = srcs\<rparr>])\<rparr>)"

text \<open>
  Modelled from the spec: \<^verbatim>\<open>cfg_utils.deep_variable_product(variables)\<close>
  (\<^verbatim>\<open>pytype/typegraph/cfg_utils.py\<close>, not among the sources): the Cartesian product
  of each variable's bindings, one combination per choice of one binding from every
  variable; \<^verbatim>\<open>TooComplexError\<close> when the product would be too large, that is, when
  it has more combinations than the complexity cap \<open>limit\<close>, which the spec leaves as a
  tuning parameter.
\<close>

definition deep_variable_product ::
  "nat \<Rightarrow> 'd program \<Rightarrow> nat list \<Rightarrow> unit error + binding list list"
where
  "deep_variable_product limit p variables =
     (if limit < prod_list (map (\<lambda>v. length (bindings p v)) variables)
      then Inl TooComplexError
      else Inr (product_lists (map (bindings p) variables)))"

subsection \<open>Views\<close>

text \<open>
  A view is a Python dictionary from variables to bindings: an association list with
  one entry per key, in insertion order; assigning to a key that is present replaces the
  value in place (\<open>AList.update\<close>).
\<close>

type_synonym view = "(nat \<times> binding) list"

text \<open>\<^verbatim>\<open>{value.variable: value for value in combination}\<close>\<close>

definition view_of :: "binding list \<Rightarrow> view" where
  "view_of combination = foldl (\<lambda>d b. AList.update (variable b) b d) [] combination"

text \<open>
  \<^verbatim>\<open>datatypes.AccessTrackingDict\<close> (not among the sources) records the keys the
  consumer reads; \<^verbatim>\<open>accessed_subset\<close> is the part of the view under those keys.
\<close>

definition accessed_subset :: "view \<Rightarrow> nat list \<Rightarrow> view" where
  "accessed_subset vw keys = filter (\<lambda>kv. fst kv \<in> set keys) vw"

text \<open>\<^verbatim>\<open>any(subset <= view.items() for subset in seen)\<close>\<close>

definition already_seen :: "view list \<Rightarrow> view \<Rightarrow> bool" where
  "already_seen seen vw = list_ex (\<lambda>subset. set subset \<subseteq> set vw) seen"

subsection \<open>The generator\<close>

text \<open>
  The consumer drives the generator: it is handed a view, reads some of its keys and
  answers with \<^verbatim>\<open>skip_future\<close>. It is modelled as a function of its own state
  \<open>'s\<close> and the view, returning the keys it read, its answer and its next state.
  The generator is run until it is exhausted; its result is the list of the views it
  yielded, in order, with the consumer's final state. The function has no access to the
  analysis' error log; its \<^verbatim>\<open>log.info\<close> lines are debugging output and are left
  out.

  \<open>can\<close> is \<^verbatim>\<open>node.CanHaveCombination\<close>, a query of the value-graph substrate.
\<close>

type_synonym 's consumer = "'s \<Rightarrow> view \<Rightarrow> nat list \<times> bool \<times> 's"

fun get_views_loop ::
  "(binding list \<Rightarrow> bool) \<Rightarrow> 's consumer \<Rightarrow> view list \<Rightarrow> 's \<Rightarrow> binding list list \<Rightarrow>
   view list \<times> 's"
where
  "get_views_loop can consumer seen s [] = ([], s)"
| "get_views_loop can consumer seen s (combination # rest) =
     (let vw = view_of combination in
      if already_seen seen vw then get_views_loop can consumer seen s rest
      else
        let combination' = map snd vw in
        if \<not> can combination' then get_views_loop can consumer seen s rest
        else
          (case consumer s vw of
             (keys, skip_future, s1) \<Rightarrow>
               let seen1 = (if skip_future then seen @ [accessed_subset vw keys] else seen);
                   (views, s2) = get_views_loop can consumer seen1 s1 rest
               in (vw # views, s2)))"

text \<open>
  The fallback's only combination,
  \<^verbatim>\<open>(var.AddBinding(node.program.default_data, [], node) for var in variables)\<close>:
  a generator expression, run when the loop builds the view of that combination.
\<close>

fun add_default_bindings ::
  "'d program \<Rightarrow> nat list \<Rightarrow> cfg_node \<Rightarrow> binding list \<times> 'd program"
where
  "add_default_bindings p [] node = ([], p)"
| "add_default_bindings p (var # variables) node =
     (let (b, p1) = AddBinding p var (default_data p) [] node;
          (bs, p2) = add_default_bindings p1 variables node
      in (b # bs, p2))"

text \<open>
  The \<^verbatim>\<open>try\<close> statement of \<^verbatim>\<open>get_views\<close>: the combinations the loop runs over,
  with the program as the loop's first iteration leaves it. Only
  \<^verbatim>\<open>TooComplexError\<close> is caught; any other error leaves the function.
\<close>

definition get_combinations ::
  "nat \<Rightarrow> 'd program \<Rightarrow> nat list \<Rightarrow> cfg_node \<Rightarrow> unit error + binding list list \<times> 'd program"
where
  "get_combinations limit p variables node =
     (case deep_variable_product limit p variables of
        Inr combinations \<Rightarrow> Inr (combinations, p)
      | Inl TooComplexError \<Rightarrow>
          (case add_default_bindings p variables node of
             (combination, p1) \<Rightarrow> Inr ([combination], p1))
      | Inl e \<Rightarrow> Inl e)"

definition get_views ::
  "(cfg_node \<Rightarrow> binding list \<Rightarrow> bool) \<Rightarrow> nat \<Rightarrow> 's consumer \<Rightarrow> 's \<Rightarrow> 'd program \<Rightarrow>
   nat list \<Rightarrow> cfg_node \<Rightarrow> unit error + view list \<times> 's \<times> 'd program"
where
  "get_views can limit consumer s p variables node =
     (case get_combinations limit p variables node of
        Inl e \<Rightarrow> Inl e
      | Inr (combinations, p1) \<Rightarrow>
          (case get_views_loop (can node) consumer [] s combinations of
             (views, s1) \<Rightarrow> Inr (views, s1, p1)))"

text \<open>A consumer that reads \<open>keys s vw\<close> and never asks to skip.\<close>

definition never_skip :: "('s \<Rightarrow> view \<Rightarrow> nat list) \<Rightarrow> ('s \<Rightarrow> view \<Rightarrow> 's) \<Rightarrow> 's consumer" where
  "never_skip keys next_state = (\<lambda>s vw. (keys s vw, False, next_state s vw))"

text \<open>A consumer that reads the one variable \<open>x\<close> of every view and always asks to skip.\<close>

definition read_one_and_skip :: "nat \<Rightarrow> ('s \<Rightarrow> view \<Rightarrow> 's) \<Rightarrow> 's consumer" where
  "read_one_and_skip x next_state = (\<lambda>s vw. ([x], True, next_state s vw))"

text \<open>
  The bindings of \<open>x\<close> that survive the node's check: those that some combination
  accepted by \<^verbatim>\<open>CanHaveCombination\<close> assigns to \<open>x\<close>.
\<close>

definition surviving_bindings ::
  "(binding list \<Rightarrow> bool) \<Rightarrow> nat \<Rightarrow> binding list list \<Rightarrow> binding set"
where
  "surviving_bindings can x combinations =
     {b. \<exists>c \<in> set combinations. can (map snd (view_of c)) \<and> map_of (view_of c) x = Some b}"

text \<open>
  A program for concrete evaluation: variable 0 holds two bindings, variable 1 holds
  three, every other variable none; all were added at the root node.
\<close>

definition root_node :: cfg_node where
  "root_node = \<lparr>node_id = 0, node_name = ''root''\<rparr>"

definition two_three :: "string program" where
  "two_three =
     \<lparr>default_data = ''?'',
      var_cells = (\<lambda>v.
        if v = 0 then [\<lparr>data = ''a0'', origin = root_node, source_set = []\<rparr>,
                       \<lparr>data = ''a1'', origin = root_node, source_set = []\<rparr>]
        else if v = 1 then [\<lparr>data = ''b0'', origin = root_node, source_set = []\<rparr>,
                            \<lparr>data = ''b1'', origin = root_node, source_set = []\<rparr>,
                            \<lparr>data = ''b2'', origin = root_node, source_set = []\<rparr>]
        else [])\<rparr>"

subsection \<open>The generator, with the fallback kept lazy\<close>

text \<open>
  The fallback's combination is a generator expression: its \<^verbatim>\<open>AddBinding\<close> calls
  run when the loop iterates over it to build the view, not when the \<^verbatim>\<open>try\<close>
  statement ends. \<open>get_views_gen\<close> is \<open>get_views\<close> with that kept as the source has
  it, and with \<^verbatim>\<open>Variable.AddBinding\<close>, which is not among the sources, as the
  parameter \<open>add\<close>: a function of the program, the variable, the data, the source
  bindings and the node, which returns a binding and the program it leaves. The program
  is threaded through the loop.

  A combination is either a tuple of bindings, as the product gives them, or the
  generator over the input variables.
\<close>

type_synonym 'd add_binding =
  "'d program \<Rightarrow> nat \<Rightarrow> 'd \<Rightarrow> binding list \<Rightarrow> cfg_node \<Rightarrow> binding \<times> 'd program"

datatype lazy_combination = Materialised "binding list" | Generator "nat list"

text \<open>
  \<^verbatim>\<open>(var.AddBinding(node.program.default_data, [], node) for var in variables)\<close>,
  run to its end.
\<close>

fun run_generator ::
  "'d add_binding \<Rightarrow> 'd program \<Rightarrow> nat list \<Rightarrow> cfg_node \<Rightarrow> binding list \<times> 'd program"
where
  "run_generator add p [] node = ([], p)"
| "run_generator add p (var # variables) node =
     (let (b, p1) = add p var (default_data p) [] node;
          (bs, p2) = run_generator add p1 variables node
      in (b # bs, p2))"

text \<open>
Iterating over a combination, as the dictionary comprehension does.
\<close>

fun iterate_combination ::
  "'d add_binding \<Rightarrow> 'd program \<Rightarrow> cfg_node \<Rightarrow> lazy_combination \<Rightarrow> binding list \<times> 'd program"
where
  "iterate_combination add p node (Materialised bs) = (bs, p)"
| "iterate_combination add p node (Generator variables) = run_generator add p variables node"

fun get_views_gen_loop ::
  "'d add_binding \<Rightarrow> (cfg_node \<Rightarrow> binding list \<Rightarrow> bool) \<Rightarrow> cfg_node \<Rightarrow> 's consumer \<Rightarrow>
   view list \<Rightarrow> 's \<Rightarrow> 'd program \<Rightarrow> lazy_combination list \<Rightarrow> view list \<times> 's \<times> 'd program"
where
  "get_views_gen_loop add can node consumer seen s p [] = ([], s, p)"
| "get_views_gen_loop add can node consumer seen s p (combination # rest) =
     (case iterate_combination add p node combination of
        (bs, p1) \<Rightarrow>
          let vw = view_of bs in
          if already_seen seen vw then get_views_gen_loop add can node consumer seen s p1 rest
          else
            let combination' = map snd vw in
            if \<not> can node combination'
            then get_views_gen_loop add can node consumer seen s p1 rest
            else
              (case consumer s vw of
                 (keys, skip_future, s1) \<Rightarrow>
                   let seen1 = (if skip_future then seen @ [accessed_subset vw keys] else seen)
                   in (case get_views_gen_loop add can node consumer seen1 s1 p1 rest of
                         (views, s2, p2) \<Rightarrow> (vw # views, s2, p2))))"

definition get_views_gen ::
  "'d add_binding \<Rightarrow> (cfg_node \<Rightarrow> binding list \<Rightarrow> bool) \<Rightarrow> nat \<Rightarrow> 's consumer \<Rightarrow> 's \<Rightarrow>
   'd program \<Rightarrow> nat list \<Rightarrow> cfg_node \<Rightarrow> unit error + view list \<times> 's \<times> 'd program"
where
  "get_views_gen add can limit consumer s p variables node =
     (case (case deep_variable_product limit p variables of
              Inr combinations \<Rightarrow> Inr (map Materialised combinations)
            | Inl TooComplexError \<Rightarrow> Inr [Generator variables]
            | Inl e \<Rightarrow> Inl e) of
        Inl e \<Rightarrow> Inl e
      | Inr combinations \<Rightarrow>
          Inr (get_views_gen_loop add can node consumer [] s p combinations))"



section \<open>The abstract-method set of a class: \<^verbatim>\<open>Class._init_abstract_methods\<close>\<close>

text \<open>
  Classes are objects with mutable attributes, so they are kept in a store indexed by
  class identity \<open>'c\<close>. \<^verbatim>\<open>_init_abstract_methods\<close> reads, of each entry \<open>cls\<close>
  of \<^verbatim>\<open>self.mro\<close>: whether it is a \<^verbatim>\<open>Class\<close>, which names it contains
  (\<^verbatim>\<open>m in cls\<close>, the attributes the class itself declares) and its attribute
  \<^verbatim>\<open>abstract_methods\<close>; of \<^verbatim>\<open>self\<close> it reads \<^verbatim>\<open>get_own_abstract_methods()\<close>
  as well, and it assigns \<^verbatim>\<open>self.abstract_methods\<close>.
\<close>

record 'c class_obj =
  is_Class :: bool
  class_mro :: "'c list"
  members :: "string set"
  own_abstract_methods :: "string set"
  abstract_methods :: "string set"

text \<open>One round of the loop over \<^verbatim>\<open>reversed(self.mro)\<close>.\<close>

definition sweep_step :: "('c \<Rightarrow> 'c class_obj) \<Rightarrow> string set \<Rightarrow> 'c \<Rightarrow> string set" where
  "sweep_step h running c =
     (if \<not> is_Class (h c) then running
      else {m \<in> running. m \<notin> members (h c) \<or> m \<in> abstract_methods (h c)}
           \<union> {m \<in> abstract_methods (h c). m \<in> members (h c)})"

definition init_abstract_methods :: "('c \<Rightarrow> 'c class_obj) \<Rightarrow> 'c \<Rightarrow> ('c \<Rightarrow> 'c class_obj)" where
  "init_abstract_methods h self =
     (let h1 = h(self := (h self)\<lparr>abstract_methods := own_abstract_methods (h self)\<rparr>);
          running = foldl (sweep_step h1) {} (rev (class_mro (h1 self)))
      in h1(self := (h1 self)\<lparr>abstract_methods := running\<rparr>))"

text \<open>
  The sweep as the specification words it, over what each class declares itself: going
  from the most general ancestor to the class, a class that declares a name of the
  running set removes it unless it marks it abstract again, and adds its own abstract
  methods. Entries of the linearization that are not classes contribute nothing.
\<close>

definition declared_step :: "('c \<Rightarrow> 'c class_obj) \<Rightarrow> string set \<Rightarrow> 'c \<Rightarrow> string set" where
  "declared_step h running c =
     (if \<not> is_Class (h c) then running
      else (running - {m. m \<in> members (h c) \<and> m \<notin> own_abstract_methods (h c)})
           \<union> own_abstract_methods (h c))"

definition declared_sweep :: "('c \<Rightarrow> 'c class_obj) \<Rightarrow> 'c \<Rightarrow> string set" where
  "declared_sweep h self = foldl (declared_step h) {} (rev (class_mro (h self)))"

text \<open>
  A class has been initialised when, on the names it declares, its
  \<^verbatim>\<open>abstract_methods\<close> attribute agrees with its own abstract methods; its own
  abstract methods are names it declares.
\<close>

definition initialised :: "('c \<Rightarrow> 'c class_obj) \<Rightarrow> 'c \<Rightarrow> bool" where
  "initialised h c =
     (abstract_methods (h c) \<inter> members (h c) = own_abstract_methods (h c) \<inter> members (h c))"

definition declares_own :: "('c \<Rightarrow> 'c class_obj) \<Rightarrow> 'c \<Rightarrow> bool" where
  "declares_own h c = (own_abstract_methods (h c) \<subseteq> members (h c))"

text \<open>
  The classes of the specification's example, before any of them is initialised:
  \<^verbatim>\<open>Base\<close> declares the abstract method \<^verbatim>\<open>f\<close>, \<^verbatim>\<open>Mid(Base)\<close> implements
  \<^verbatim>\<open>f\<close>, \<^verbatim>\<open>Leaf(Mid)\<close> and \<^verbatim>\<open>Leaf2(Base)\<close> declare nothing.
\<close>

definition new_class :: "string list \<Rightarrow> string set \<Rightarrow> string set \<Rightarrow> string class_obj" where
  "new_class linearization names abstract =
     \<lparr>is_Class = True, class_mro = linearization, members = names,
      own_abstract_methods = abstract, abstract_methods = {}\<rparr>"

definition example_classes :: "string \<Rightarrow> string class_obj" where
  "example_classes c =
     (if c = ''Base'' then new_class [''Base'', ''object''] {''f''} {''f''}
      else if c = ''Mid'' then new_class [''Mid'', ''Base'', ''object''] {''f''} {}
      else if c = ''Leaf'' then new_class [''Leaf'', ''Mid'', ''Base'', ''object''] {} {}
      else if c = ''Leaf2'' then new_class [''Leaf2'', ''Base'', ''object''] {} {}
      else new_class [''object''] {''__init__''} {})"

text \<open>The classes are created, and so initialised, base classes first.\<close>

definition example_ancestors :: "string \<Rightarrow> string class_obj" where
  "example_ancestors =
     init_abstract_methods
       (init_abstract_methods
          (init_abstract_methods example_classes ''object'') ''Base'') ''Mid''"

definition example_initialised :: "string \<Rightarrow> string class_obj" where
  "example_initialised =
     init_abstract_methods (init_abstract_methods example_ancestors ''Leaf'') ''Leaf2''"

section \<open>The class precedence list: \<^verbatim>\<open>Class.compute_mro\<close>\<close>

text \<open>
  \<^verbatim>\<open>compute_mro\<close> reads of a class whether it is a \<^verbatim>\<open>ParameterizedClass\<close>,
  the class it wraps (\<^verbatim>\<open>base_cls\<close>), its name and its linearization. A
  \<^verbatim>\<open>ParameterizedClass\<close> is equal to another when both wrap the same class with the
  same type arguments, and it goes by the name of the class it wraps; the source compares
  the \<^verbatim>\<open>full_name\<close> of a parameterized base with \<^verbatim>\<open>"typing.Generic"\<close>. The
  linearization of a base, \<^verbatim>\<open>base.mro\<close>, is read through the parameter \<open>mro_of\<close>.
\<close>

datatype mro_class =
    PlainClass string
  | ParameterizedClass (base_cls: mro_class) "(string \<times> string) list"

fun full_name :: "mro_class \<Rightarrow> string" where
  "full_name (PlainClass n) = n"
| "full_name (ParameterizedClass b _) = full_name b"

fun isinstance_ParameterizedClass :: "mro_class \<Rightarrow> bool" where
  "isinstance_ParameterizedClass (PlainClass _) = False"
| "isinstance_ParameterizedClass (ParameterizedClass _ _) = True"

text \<open>
  \<^verbatim>\<open>get_atomic_value(variable, default=d)\<close>, for a variable given by the data of its
  bindings: the data of the one binding, or the default. With a default the function
  does not raise.
\<close>

definition get_atomic_value :: "'a list \<Rightarrow> 'a \<Rightarrow> 'a" where
  "get_atomic_value var_data dflt = (case var_data of [v] \<Rightarrow> v | _ \<Rightarrow> dflt)"

text \<open>
  \<^verbatim>\<open>get_mro_bases(bases, vm)\<close>; \<open>unsolvable\<close> is \<^verbatim>\<open>vm.convert.unsolvable\<close>.
\<close>

fun get_mro_bases_loop ::
  "mro_class \<Rightarrow> mro_class list list \<Rightarrow> mro_class list \<Rightarrow> bool \<Rightarrow> mro_class list \<times> bool"
where
  "get_mro_bases_loop unsolvable [] mro_bases has_user_generic = (mro_bases, has_user_generic)"
| "get_mro_bases_loop unsolvable (base_var # rest) mro_bases has_user_generic =
     (if base_var = [] then get_mro_bases_loop unsolvable rest mro_bases has_user_generic
      else
        let base = get_atomic_value base_var unsolvable in
        get_mro_bases_loop unsolvable rest (mro_bases @ [base])
          (if isinstance_ParameterizedClass base \<and> full_name base \<noteq> ''typing.Generic''
           then True else has_user_generic))"

definition get_mro_bases :: "mro_class list list \<Rightarrow> mro_class \<Rightarrow> mro_class list" where
  "get_mro_bases bases unsolvable =
     (case get_mro_bases_loop unsolvable bases [] False of
        (mro_bases, has_user_generic) \<Rightarrow>
          if has_user_generic then filter (\<lambda>b. full_name b \<noteq> ''typing.Generic'') mro_bases
          else mro_bases)"

text \<open>
  Modelled from the spec: \<^verbatim>\<open>mro.MROMerge\<close> (\<^verbatim>\<open>pytype/pytd/mro.py\<close>, not among
  the sources), the C3-style merge: repeatedly select a list head not present in any
  other list's tail, append it, remove it everywhere; fail if no list has an eligible
  head. \<open>find_head earlier seqs\<close> looks for the first such head among \<open>seqs\<close>, the
  lists before them being \<open>earlier\<close>.
\<close>

fun find_head :: "'a list list \<Rightarrow> 'a list list \<Rightarrow> 'a option" where
  "find_head earlier [] = None"
| "find_head earlier ([] # after) = find_head (earlier @ [[]]) after"
| "find_head earlier ((x # xs) # after) =
     (if list_all (\<lambda>t. x \<notin> set (tl t)) (earlier @ after) then Some x
      else find_head (earlier @ [x # xs]) after)"

function mro_merge_loop :: "'a list list \<Rightarrow> 'a list \<Rightarrow> 'c error + 'a list" where
  "mro_merge_loop seqs res =
     (if list_all (\<lambda>s. s = []) seqs then Inr res
      else (case find_head [] seqs of
              None \<Rightarrow> Inl MROError
            | Some x \<Rightarrow> mro_merge_loop (map (removeAll x) seqs) (res @ [x])))"
  by pat_completeness auto
termination
proof (relation "measure (\<lambda>(seqs, res). sum_list (map length seqs))")
  show "wf (measure (\<lambda>(seqs, res). sum_list (map length seqs)))" by simp
next
  fix seqs :: "'a list list" and res :: "'a list" and x
  assume found: "find_head [] seqs = Some x"
  have head_in: "find_head earlier ss = Some x \<Longrightarrow> \<exists>s \<in> set ss. x \<in> set s"
    for earlier ss :: "'a list list"
    by (induction earlier ss rule: find_head.induct) (auto split: if_splits)
  have le: "sum_list (map (\<lambda>s. length (removeAll x s)) ss) \<le> sum_list (map length ss)"
    for ss :: "'a list list"
  proof (induction ss)
    case Nil
    show ?case by simp
  next
    case (Cons s ss)
    have "length (removeAll x s) \<le> length s" by (rule length_removeAll_less_eq)
    from add_mono [OF this Cons.IH] show ?case by simp
  qed
  have less: "s \<in> set ss \<Longrightarrow> x \<in> set s \<Longrightarrow>
      sum_list (map (\<lambda>s. length (removeAll x s)) ss) < sum_list (map length ss)"
    for s and ss :: "'a list list"
  proof (induction ss)
    case Nil
    then show ?case by simp
  next
    case (Cons t ss)
    have t: "length (removeAll x t) \<le> length t" by (rule length_removeAll_less_eq)
    show ?case
    proof (cases "x \<in> set t")
      case True
      then have "length (removeAll x t) < length t" by (rule length_removeAll_less)
      from add_less_le_mono [OF this le [of ss]] show ?thesis by simp
    next
      case False
      with Cons.prems have "s \<in> set ss" by auto
      from add_le_less_mono [OF t Cons.IH [OF this Cons.prems(2)]] show ?thesis by simp
    qed
  qed
  from found have "\<exists>s \<in> set seqs. x \<in> set s" by (rule head_in)
  then obtain s where "s \<in> set seqs" "x \<in> set s" ..
  then have "sum_list (map (\<lambda>s. length (removeAll x s)) seqs) < sum_list (map length seqs)"
    by (rule less)
  then show "((map (removeAll x) seqs, res @ [x]), (seqs, res))
               \<in> measure (\<lambda>(seqs, res). sum_list (map length seqs))"
    by (simp add: comp_def)
qed

definition MROMerge :: "'a list list \<Rightarrow> 'c error + 'a list" where
  "MROMerge seqs = mro_merge_loop seqs []"


text \<open>
  The loops of \<^verbatim>\<open>compute_mro\<close> that fill the dictionary \<^verbatim>\<open>base2cls\<close> and the
  rows \<^verbatim>\<open>newbases\<close>: \<open>add_base\<close> is one round of the inner loop, \<open>add_row\<close> one
  round of the outer loop.
\<close>

definition add_base ::
  "(mro_class \<rightharpoonup> mro_class) \<times> mro_class list \<Rightarrow> mro_class \<Rightarrow>
   (mro_class \<rightharpoonup> mro_class) \<times> mro_class list"
where
  "add_base acc base =
     (case acc of (base2cls, baselist) \<Rightarrow>
        if isinstance_ParameterizedClass base
        then (base2cls(base_cls base \<mapsto> base), baselist @ [base_cls base])
        else (base2cls(base \<mapsto> base), baselist @ [base]))"

definition add_row ::
  "(mro_class \<rightharpoonup> mro_class) \<times> mro_class list list \<Rightarrow> mro_class list \<Rightarrow>
   (mro_class \<rightharpoonup> mro_class) \<times> mro_class list list"
where
  "add_row acc row =
     (case acc of (base2cls, newbases) \<Rightarrow>
        (case foldl add_base (base2cls, []) row of
           (base2cls1, baselist) \<Rightarrow> (base2cls1, newbases @ [baselist])))"

text \<open>
  \<^verbatim>\<open>[[self]] + [list(base.mro) for base in bases] + [list(bases)]\<close>
\<close>

definition mro_rows ::
  "(mro_class \<Rightarrow> mro_class list) \<Rightarrow> mro_class \<Rightarrow> mro_class \<Rightarrow> mro_class list list \<Rightarrow>
   mro_class list list"
where
  "mro_rows mro_of unsolvable self base_vars =
     (let bases = get_mro_bases base_vars unsolvable
      in [[self]] @ map mro_of bases @ [bases])"

text \<open>
  \<^verbatim>\<open>tuple(base2cls[base] for base in ...)\<close>: a missing key raises \<^verbatim>\<open>KeyError\<close>.
\<close>

fun lookup_all :: "('a \<rightharpoonup> 'b) \<Rightarrow> 'a list \<Rightarrow> 'c error + 'b list" where
  "lookup_all d [] = Inr []"
| "lookup_all d (k # ks) =
     (case d k of
        None \<Rightarrow> Inl KeyError
      | Some v \<Rightarrow> (case lookup_all d ks of Inl e \<Rightarrow> Inl e | Inr vs \<Rightarrow> Inr (v # vs)))"

text \<open>
  \<open>merge\<close> is \<^verbatim>\<open>mro.MROMerge\<close>; what it raises leaves \<open>compute_mro\<close>.
\<close>

definition compute_mro ::
  "(mro_class list list \<Rightarrow> 'c error + mro_class list) \<Rightarrow> (mro_class \<Rightarrow> mro_class list) \<Rightarrow>
   mro_class \<Rightarrow> mro_class \<Rightarrow> mro_class list list \<Rightarrow> 'c error + mro_class list"
where
  "compute_mro merge mro_of unsolvable self base_vars =
     (case foldl add_row (Map.empty, []) (mro_rows mro_of unsolvable self base_vars) of
        (base2cls, newbases) \<Rightarrow>
          (case merge newbases of
             Inl e \<Rightarrow> Inl e
           | Inr merged \<Rightarrow> lookup_all base2cls merged))"

text \<open>
  The class that a parameterized class wraps, and a plain class itself: the key under
  which \<open>add_base\<close> files a class.
\<close>

fun unwrap :: "mro_class \<Rightarrow> mro_class" where
  "unwrap (ParameterizedClass b _) = b"
| "unwrap (PlainClass n) = PlainClass n"

text \<open>
  The classes of the input rows that are filed under the key \<open>u\<close>, in the order the
  loops meet them (row by row): the first and the last of them.
\<close>

definition first_association :: "mro_class list list \<Rightarrow> mro_class \<Rightarrow> mro_class option" where
  "first_association rows u =
     (case filter (\<lambda>b. unwrap b = u) (concat rows) of [] \<Rightarrow> None | b # _ \<Rightarrow> Some b)"

definition last_association :: "mro_class list list \<Rightarrow> mro_class \<Rightarrow> mro_class option" where
  "last_association rows u =
     (case filter (\<lambda>b. unwrap b = u) (concat rows) of [] \<Rightarrow> None | bs \<Rightarrow> Some (last bs))"

text \<open>
  An example: \<^verbatim>\<open>class B(A[str])\<close> and \<^verbatim>\<open>class C(B, A[int])\<close>.
\<close>

definition example_mro :: "mro_class \<Rightarrow> mro_class list" where
  "example_mro c =
     (if c = PlainClass ''object'' then [PlainClass ''object'']
      else if c = PlainClass ''B''
        then [PlainClass ''B'', ParameterizedClass (PlainClass ''A'') [(''T'', ''str'')],
              PlainClass ''object'']
      else [c, PlainClass ''object''])"

definition example_bases :: "mro_class list list" where
  "example_bases = [[PlainClass ''B''], [ParameterizedClass (PlainClass ''A'') [(''T'', ''int'')]]]"

section \<open>The template of a class: \<^verbatim>\<open>compute_template\<close>\<close>






























section \<open>Theorems\<close>

subsection \<open>\<^verbatim>\<open>_merge_type\<close>\<close>

text \<open>
  C5. Merging two type values bound to the same type-parameter name: when the first
  is absent or the unknown placeholder the result is the second, unchanged; when the
  second is (and the first is not) the result is the first, unchanged; when the first
  appears in the linearization of the second the result is the second (the more
  specific one), and symmetrically; in every other case \<open>GenericTypeError\<close> is raised on
  the given class with a message that names the parameter.
\<close>

theorem merge_type_cases:
  "(is_wildcard h t0 \<longrightarrow> merge_type h t0 t1 name cls = Inr t1) \<and>
   (\<not> is_wildcard h t0 \<and> is_wildcard h t1 \<longrightarrow> merge_type h t0 t1 name cls = Inr t0) \<and>
   (\<not> is_wildcard h t0 \<and> \<not> is_wildcard h t1 \<and> ancestor_or_self h t0 t1 \<longrightarrow>
      merge_type h t0 t1 name cls = Inr t1) \<and>
   (\<not> is_wildcard h t0 \<and> \<not> is_wildcard h t1 \<and> \<not> ancestor_or_self h t0 t1 \<and>
    ancestor_or_self h t1 t0 \<longrightarrow>
      merge_type h t0 t1 name cls = Inr t0) \<and>
   (\<not> is_wildcard h t0 \<and> \<not> is_wildcard h t1 \<and> \<not> ancestor_or_self h t0 t1 \<and>
    \<not> ancestor_or_self h t1 t0 \<longrightarrow>
      merge_type h t0 t1 name cls =
        Inl (GenericTypeError cls (''Conflicting value for TypeVar '' @ name)))"
  by (auto simp: merge_type_def is_wildcard_def ancestor_or_self_def split: option.splits)

text \<open>
  The five cases at concrete values: a wildcard on either side, \<^verbatim>\<open>int\<close> against its
  subclass \<^verbatim>\<open>bool\<close> in both orders, and the unrelated \<^verbatim>\<open>int\<close> and \<^verbatim>\<open>str\<close>
  bound to \<^verbatim>\<open>_K\<close>.
\<close>

theorem merge_type_cases_witness:
  "merge_type builtin_types (Some ''?'') (Some ''int'') ''_K'' ''Foo'' = Inr (Some ''int'') \<and>
   merge_type builtin_types (Some ''int'') None ''_K'' ''Foo'' = Inr (Some ''int'') \<and>
   merge_type builtin_types (Some ''int'') (Some ''bool'') ''_K'' ''Foo'' = Inr (Some ''bool'') \<and>
   merge_type builtin_types (Some ''bool'') (Some ''int'') ''_K'' ''Foo'' = Inr (Some ''bool'') \<and>
   merge_type builtin_types (Some ''int'') (Some ''str'') ''_K'' ''Foo'' =
     Inl (GenericTypeError ''Foo'' ''Conflicting value for TypeVar _K'')"
proof -
  have w: "is_wildcard builtin_types (Some ''?'')" "is_wildcard builtin_types None"
    and nw: "\<not> is_wildcard builtin_types (Some ''int'')"
      "\<not> is_wildcard builtin_types (Some ''bool'')"
      "\<not> is_wildcard builtin_types (Some ''str'')"
    by (simp_all add: is_wildcard_def builtin_types_def)
  have a: "ancestor_or_self builtin_types (Some ''int'') (Some ''bool'')"
    and na: "\<not> ancestor_or_self builtin_types (Some ''bool'') (Some ''int'')"
      "\<not> ancestor_or_self builtin_types (Some ''int'') (Some ''str'')"
      "\<not> ancestor_or_self builtin_types (Some ''str'') (Some ''int'')"
    by (simp_all add: ancestor_or_self_def builtin_types_def)
  note m = merge_type_cases [where h = builtin_types and name = "''_K''" and cls = "''Foo''"]
  have "merge_type builtin_types (Some ''?'') (Some ''int'') ''_K'' ''Foo'' = Inr (Some ''int'')"
    using m [of "Some ''?''" "Some ''int''"] w by blast
  moreover
  have "merge_type builtin_types (Some ''int'') None ''_K'' ''Foo'' = Inr (Some ''int'')"
    using m [of "Some ''int''" None] w nw by blast
  moreover
  have "merge_type builtin_types (Some ''int'') (Some ''bool'') ''_K'' ''Foo'' = Inr (Some ''bool'')"
    using m [of "Some ''int''" "Some ''bool''"] nw a by blast
  moreover
  have "merge_type builtin_types (Some ''bool'') (Some ''int'') ''_K'' ''Foo'' = Inr (Some ''bool'')"
    using m [of "Some ''bool''" "Some ''int''"] nw a na by blast
  moreover
  have "merge_type builtin_types (Some ''int'') (Some ''str'') ''_K'' ''Foo'' =
          Inl (GenericTypeError ''Foo'' (''Conflicting value for TypeVar '' @ ''_K''))"
    using m [of "Some ''int''" "Some ''str''"] nw na by blast
  ultimately show ?thesis by simp
qed

subsection \<open>\<^verbatim>\<open>apply_mutations\<close>\<close>

lemma apply_mutations_loop_later:
  "0 < num \<Longrightarrow>
   apply_mutations_loop mitp (g, s) node num ms =
     (node, g, apply_all_at mitp node ms s, num + length ms)"
proof (induction ms arbitrary: s num)
  case Nil
  show ?case by (simp add: apply_all_at_def)
next
  case (Cons m ms)
  obtain obj name val where m: "m = (obj, name, val)" by (cases m)
  from Cons.prems Cons.IH [of "num + 1" "mitp obj node name val s"]
  show ?case by (simp add: m apply_all_at_def)
qed

text \<open>
  C8. With no mutation, \<open>apply_mutations\<close> returns the node it was given and leaves
  the graph and the objects as they were. With at least one mutation, it creates
  exactly one new node (the graph's node list grows by that node alone, connected
  from the given node and carrying its name), applies every mutation of the batch
  against that node, and returns it.
\<close>

theorem apply_mutations_one_node:
  "apply_mutations mitp (g, s) node [] = (node, g, s) \<and>
   (ms \<noteq> [] \<longrightarrow>
      (let new = \<lparr>node_id = length (cfg_nodes g), node_name = node_name node\<rparr>
       in apply_mutations mitp (g, s) node ms =
            (new,
             g\<lparr>cfg_nodes := cfg_nodes g @ [new],
               cfg_edges := cfg_edges g @ [(node_id node, node_id new)]\<rparr>,
             apply_all_at mitp new ms s)))"
proof (intro conjI impI)
  show "apply_mutations mitp (g, s) node [] = (node, g, s)"
    by (simp add: apply_mutations_def)
next
  assume "ms \<noteq> []"
  then obtain obj name val rest where ms: "ms = (obj, name, val) # rest"
    by (cases ms) auto
  define new where "new = \<lparr>node_id = length (cfg_nodes g), node_name = node_name node\<rparr>"
  define g1 where "g1 = g\<lparr>cfg_nodes := cfg_nodes g @ [new],
                           cfg_edges := cfg_edges g @ [(node_id node, node_id new)]\<rparr>"
  have cn: "ConnectNew g node (node_name node) = (new, g1)"
    by (simp add: ConnectNew_def new_def g1_def Let_def)
  have "apply_mutations_loop mitp (g, s) node 0 ms =
          apply_mutations_loop mitp (g1, mitp obj new name val s) new 1 rest"
    by (simp add: ms cn)
  also have "\<dots> = (new, g1, apply_all_at mitp new rest (mitp obj new name val s), 1 + length rest)"
    by (rule apply_mutations_loop_later) simp
  finally have "apply_mutations mitp (g, s) node ms =
                  (new, g1, apply_all_at mitp new ms s)"
    by (simp add: apply_mutations_def ms apply_all_at_def)
  then show "let new = \<lparr>node_id = length (cfg_nodes g), node_name = node_name node\<rparr>
       in apply_mutations mitp (g, s) node ms =
            (new,
             g\<lparr>cfg_nodes := cfg_nodes g @ [new],
               cfg_edges := cfg_edges g @ [(node_id node, node_id new)]\<rparr>,
             apply_all_at mitp new ms s)"
    by (simp add: new_def g1_def Let_def)
qed

text \<open>
  A batch of two mutations at the root node of a one-node graph: one node is created,
  and both calls are made at it.
\<close>

theorem apply_mutations_one_node_witness:
  "apply_mutations record_call (root_graph, [])
     \<lparr>node_id = 0, node_name = ''root''\<rparr>
     [(''x'', ''_T'', ''int''), (''y'', ''_K'', ''str'')] =
   (\<lparr>node_id = 1, node_name = ''root''\<rparr>,
    \<lparr>cfg_nodes = [\<lparr>node_id = 0, node_name = ''root''\<rparr>, \<lparr>node_id = 1, node_name = ''root''\<rparr>],
     cfg_edges = [(0, 1)]\<rparr>,
    [(''x'', 1, ''_T'', ''int''), (''y'', 1, ''_K'', ''str'')])"
proof -
  have ne: "[(''x'', ''_T'', ''int''), (''y'', ''_K'', ''str'')] \<noteq> []" by simp
  from apply_mutations_one_node
         [where mitp = record_call and g = root_graph and s = "[]"
            and node = "\<lparr>node_id = 0, node_name = ''root''\<rparr>"
            and ms = "[(''x'', ''_T'', ''int''), (''y'', ''_K'', ''str'')]"] ne
  show ?thesis
    by (simp add: Let_def root_graph_def apply_all_at_def record_call_def)
qed

subsection \<open>\<^verbatim>\<open>get_views\<close>\<close>

lemma view_of_distinct: "distinct (map fst (view_of c))"
proof -
  have "distinct (map fst d) \<Longrightarrow> distinct (map fst (foldl (\<lambda>d b. AList.update (variable b) b d) d c))" for d
    by (induction c arbitrary: d) (simp_all add: distinct_update)
  then show ?thesis by (simp add: view_of_def)
qed

lemma view_of_keys: "fst ` set (view_of c) = variable ` set c"
proof -
  have "fst ` set (foldl (\<lambda>d b. AList.update (variable b) b d) d c) = fst ` set d \<union> variable ` set c" for d
    by (induction c arbitrary: d) (auto simp: dom_update)
  then show ?thesis by (simp add: view_of_def)
qed

lemma view_of_lookup: "x \<in> variable ` set c \<Longrightarrow> \<exists>b. map_of (view_of c) x = Some b"
  using view_of_keys [of c] by (metis domD dom_map_of_conv_image_fst)

lemma view_item_iff: "(x, b) \<in> set (view_of c) \<longleftrightarrow> map_of (view_of c) x = Some b"
  using view_of_distinct [of c] by (metis map_of_SomeD map_of_is_SomeI)

lemma accessed_one:
  assumes "map_of (view_of c) x = Some b"
  shows "set (accessed_subset (view_of c) [x]) = {(x, b)}"
proof (rule set_eqI)
  fix kv :: "nat \<times> binding"
  obtain k v where kv: "kv = (k, v)" by (cases kv)
  have "kv \<in> set (accessed_subset (view_of c) [x]) \<longleftrightarrow> (k, v) \<in> set (view_of c) \<and> k = x"
    by (simp add: accessed_subset_def kv)
  also have "\<dots> \<longleftrightarrow> k = x \<and> map_of (view_of c) x = Some v"
    using view_item_iff [of k v c] by blast
  also have "\<dots> \<longleftrightarrow> kv \<in> {(x, b)}"
    using assms by (auto simp: kv)
  finally show "kv \<in> set (accessed_subset (view_of c) [x]) \<longleftrightarrow> kv \<in> {(x, b)}" .
qed

lemma surviving_Cons:
  "surviving_bindings can x (c # cs) =
     (if can (map snd (view_of c)) then (case map_of (view_of c) x of None \<Rightarrow> {} | Some b \<Rightarrow> {b}) else {})
     \<union> surviving_bindings can x cs"
  by (auto simp: surviving_bindings_def split: option.splits)

lemma skip_loop:
  assumes "\<forall>c\<in>set combos. \<exists>b. map_of (view_of c) x = Some b"
    and "\<forall>sub \<in> set seen. \<exists>b\<in>S. set sub = {(x, b)}"
    and "\<forall>b\<in>S. \<exists>sub\<in>set seen. set sub = {(x, b)}"
    and "get_views_loop can (read_one_and_skip x nxt) seen s combos = (views, s')"
  shows "distinct (map (\<lambda>vw. map_of vw x) views) \<and>
         (\<lambda>vw. map_of vw x) ` set views = Some ` (surviving_bindings can x combos - S)"
  using assms
proof (induction combos arbitrary: seen S s views s')
  case Nil
  then show ?case by (simp add: surviving_bindings_def)
next
  case (Cons c cs)
  from Cons.prems(1) obtain b where b: "map_of (view_of c) x = Some b" by auto
  have rest: "\<forall>c\<in>set cs. \<exists>b. map_of (view_of c) x = Some b" using Cons.prems(1) by simp
  have seen_iff: "already_seen seen (view_of c) \<longleftrightarrow> b \<in> S"
  proof
    assume "already_seen seen (view_of c)"
    then obtain sub where sub: "sub \<in> set seen" "set sub \<subseteq> set (view_of c)"
      by (auto simp: already_seen_def list_ex_iff)
    with Cons.prems(2) obtain b' where b': "b' \<in> S" "set sub = {(x, b')}" by blast
    with sub have "(x, b') \<in> set (view_of c)" by auto
    then have "b' = b" using b by (simp add: view_item_iff)
    with b' show "b \<in> S" by simp
  next
    assume "b \<in> S"
    with Cons.prems(3) obtain sub where "sub \<in> set seen" "set sub = {(x, b)}" by blast
    moreover have "(x, b) \<in> set (view_of c)" using b by (simp add: view_item_iff)
    ultimately have "sub \<in> set seen \<and> set sub \<subseteq> set (view_of c)" by simp
    then show "already_seen seen (view_of c)"
      unfolding already_seen_def list_ex_iff by blast
  qed
  show ?case
  proof (cases "b \<in> S")
    case True
    then have "get_views_loop can (read_one_and_skip x nxt) seen s cs = (views, s')"
      using Cons.prems(4) seen_iff by simp
    from Cons.IH [OF rest Cons.prems(2) Cons.prems(3) this] True b
    show ?thesis by (auto simp: surviving_Cons)
  next
    case notS: False
    show ?thesis
    proof (cases "can (map snd (view_of c))")
      case False
      then have "get_views_loop can (read_one_and_skip x nxt) seen s cs = (views, s')"
        using Cons.prems(4) seen_iff notS by simp
      from Cons.IH [OF rest Cons.prems(2) Cons.prems(3) this] False
      show ?thesis by (simp add: surviving_Cons)
    next
      case True
      define seen1 where "seen1 = seen @ [accessed_subset (view_of c) [x]]"
      obtain views1 s2 where l1:
        "get_views_loop can (read_one_and_skip x nxt) seen1 (nxt s (view_of c)) cs = (views1, s2)"
        by (cases "get_views_loop can (read_one_and_skip x nxt) seen1 (nxt s (view_of c)) cs")
      have views: "views = view_of c # views1"
        using Cons.prems(4) seen_iff notS True l1
        by (simp add: read_one_and_skip_def seen1_def)
      have acc: "set (accessed_subset (view_of c) [x]) = {(x, b)}"
        using b by (rule accessed_one)
      have i2: "\<forall>sub \<in> set seen1. \<exists>b'\<in>insert b S. set sub = {(x, b')}"
        using Cons.prems(2) acc by (auto simp: seen1_def)
      have i3: "\<forall>b'\<in>insert b S. \<exists>sub\<in>set seen1. set sub = {(x, b')}"
        using Cons.prems(3) acc by (auto simp: seen1_def)
      from Cons.IH [OF rest i2 i3 l1]
      have d: "distinct (map (\<lambda>vw. map_of vw x) views1)"
        and im: "(\<lambda>vw. map_of vw x) ` set views1 = Some ` (surviving_bindings can x cs - insert b S)"
        by simp_all
      have "Some b \<notin> (\<lambda>vw. map_of vw x) ` set views1" unfolding im by auto
      with d have "distinct (map (\<lambda>vw. map_of vw x) views)" by (simp add: views b)
      moreover have "(\<lambda>vw. map_of vw x) ` set views =
                      Some ` (surviving_bindings can x (c # cs) - S)"
        using im notS True b by (auto simp: views surviving_Cons)
      ultimately show ?thesis by simp
    qed
  qed
qed


lemma never_skip_loop:
  "get_views_loop can (never_skip keys nxt) [] s combos = (vs, s') \<Longrightarrow>
   vs = map view_of (filter (\<lambda>c. can (map snd (view_of c))) combos)"
proof (induction combos arbitrary: s vs s')
  case Nil then show ?case by simp
next
  case (Cons c cs)
  then show ?case
    by (auto simp: never_skip_def already_seen_def Let_def split: if_splits prod.splits)
qed

lemma product_lists_variables:
  "c \<in> set (product_lists (map (bindings p) vs)) \<Longrightarrow> map variable c = vs"
  by (induction vs arbitrary: c) (auto simp: bindings_def)

lemma add_default_bindings_effect:
  "add_default_bindings p vs node = (bs, p1) \<Longrightarrow>
   map variable bs = vs \<and> default_data p1 = default_data p \<and>
   (\<forall>v. var_cells p1 v = var_cells p v @
          replicate (count_list vs v) \<lparr>data = default_data p, origin = node, source_set = []\<rparr>)"
proof (induction vs arbitrary: p bs p1)
  case Nil
  then show ?case by simp
next
  case (Cons x xs)
  define p' where "p' = snd (AddBinding p x (default_data p) [] node)"
  obtain bs' p2 where r: "add_default_bindings p' xs node = (bs', p2)"
    by (cases "add_default_bindings p' xs node")
  from Cons.prems r have bs: "bs = Binding x (length (var_cells p x)) # bs'" and p1: "p1 = p2"
    by (simp_all add: p'_def AddBinding_def)
  have p': "default_data p' = default_data p"
    "\<And>v. var_cells p' v = (if v = x then var_cells p x @ [\<lparr>data = default_data p, origin = node, source_set = []\<rparr>] else var_cells p v)"
    by (simp_all add: p'_def AddBinding_def)
  from Cons.IH [OF r] show ?case
    by (auto simp: bs p1 p' replicate_app_Cons_same)
qed

lemma add_default_bindings_data:
  "add_default_bindings p vs node = (bs, p1) \<Longrightarrow>
   list_all (\<lambda>b. map_option data (binding_cell p1 b) = Some (default_data p)) bs"
proof (induction vs arbitrary: p bs p1)
  case Nil
  then show ?case by simp
next
  case (Cons x xs)
  define p' where "p' = snd (AddBinding p x (default_data p) [] node)"
  obtain bs' p2 where r: "add_default_bindings p' xs node = (bs', p2)"
    by (cases "add_default_bindings p' xs node")
  from Cons.prems r have bs: "bs = Binding x (length (var_cells p x)) # bs'" and p1: "p1 = p2"
    by (simp_all add: p'_def AddBinding_def)
  have p': "default_data p' = default_data p"
    "\<And>v. var_cells p' v = (if v = x then var_cells p x @ [\<lparr>data = default_data p, origin = node, source_set = []\<rparr>] else var_cells p v)"
    by (simp_all add: p'_def AddBinding_def)
  from add_default_bindings_effect [OF r]
  have cells: "var_cells p2 x = var_cells p' x @
      replicate (count_list xs x) \<lparr>data = default_data p', origin = node, source_set = []\<rparr>"
    by simp
  have hd: "map_option data (binding_cell p2 (Binding x (length (var_cells p x)))) = Some (default_data p)"
    by (simp add: binding_cell_def cells p' nth_append)
  from Cons.IH [OF r] have "list_all (\<lambda>b. map_option data (binding_cell p2 b) = Some (default_data p)) bs'"
    by (simp add: p'(1))
  with hd show ?case by (simp add: bs p1)
qed

text \<open>
  C9. When the product of the variables' bindings raises \<open>TooComplexError\<close>,
  \<open>get_views\<close> catches it: no error reaches the consumer (the result is \<open>Inr\<close>), and
  the loop runs over exactly one combination, which holds one binding per input
  variable, in order, each holding the program's default (unknown) data. That
  combination's view is yielded if the node accepts it, and nothing else is.
\<close>

theorem get_views_too_complex:
  assumes "deep_variable_product limit p variables = Inl TooComplexError"
  shows "\<exists>combination p1 views s1.
     get_combinations limit p variables node = Inr ([combination], p1) \<and>
     map variable combination = variables \<and>
     list_all (\<lambda>b. map_option data (binding_cell p1 b) = Some (default_data p)) combination \<and>
     get_views can limit consumer s p variables node = Inr (views, s1, p1) \<and>
     views = (if can node (map snd (view_of combination)) then [view_of combination] else [])"
proof -
  obtain bs p1 where r: "add_default_bindings p variables node = (bs, p1)"
    by (cases "add_default_bindings p variables node")
  have gc: "get_combinations limit p variables node = Inr ([bs], p1)"
    by (simp add: get_combinations_def assms r)
  obtain keys skip s1 where c: "consumer s (view_of bs) = (keys, skip, s1)"
    by (cases "consumer s (view_of bs)")
  have "get_views can limit consumer s p variables node =
          Inr (if can node (map snd (view_of bs)) then [view_of bs] else [],
               if can node (map snd (view_of bs)) then s1 else s, p1)"
    by (simp add: get_views_def gc already_seen_def c)
  with gc add_default_bindings_effect [OF r] add_default_bindings_data [OF r]
  show ?thesis by blast
qed

text \<open>
  C3, as amended. With no variables, \<open>get_views\<close> considers exactly one combination,
  the empty one (the product of no bindings, below the cap or through the fallback),
  and no binding is added. It yields one view, the empty dictionary, when the node's
  \<^verbatim>\<open>CanHaveCombination\<close> accepts the empty list of bindings, and none otherwise.
\<close>

theorem get_views_no_variables:
  "get_views can limit consumer s p [] node =
     (if can node [] then Inr ([[]], snd (snd (consumer s [])), p) else Inr ([], s, p))"
proof -
  have gc: "get_combinations limit p [] node = Inr ([[]], p)"
    by (simp add: get_combinations_def deep_variable_product_def)
  show ?thesis
    by (simp add: get_views_def gc already_seen_def view_of_def split: prod.splits)
qed

text \<open>
  C3, as stated, fails: at a node that accepts the empty combination, \<open>get_views\<close>
  with no variables yields one view.
\<close>

theorem get_views_no_variables_counterexample:
  "get_views (\<lambda>node c. True) 1024 (never_skip (\<lambda>s vw. []) (\<lambda>s vw. s)) () two_three [] root_node =
     Inr ([[]], (), two_three)"
  by (simp add: get_views_def get_combinations_def deep_variable_product_def already_seen_def
        view_of_def never_skip_def)


lemma get_combinations_keys:
  assumes "get_combinations limit p variables node = Inr (combinations, p1)"
    and "c \<in> set combinations"
  shows "map variable c = variables"
proof (cases "limit < prod_list (map (\<lambda>v. length (bindings p v)) variables)")
  case True
  obtain bs p2 where r: "add_default_bindings p variables node = (bs, p2)"
    by (cases "add_default_bindings p variables node")
  from assms True r have "c = bs"
    by (auto simp: get_combinations_def deep_variable_product_def)
  with add_default_bindings_effect [OF r] show ?thesis by simp
next
  case False
  with assms have "c \<in> set (product_lists (map (bindings p) variables))"
    by (auto simp: get_combinations_def deep_variable_product_def)
  then show ?thesis by (rule product_lists_variables)
qed

lemma get_combinations_total:
  "\<exists>combinations p1. get_combinations limit p variables node = Inr (combinations, p1)"
  by (cases "add_default_bindings p variables node")
     (simp add: get_combinations_def deep_variable_product_def)

text \<open>
  C1. Let \<open>x\<close> be one of the input variables, and let the consumer read \<open>x\<close> alone
  from every view and always answer that future views may be skipped. Then
  \<open>get_views\<close> returns, and the number of views it yields is the number of distinct
  bindings of \<open>x\<close> that occur in a combination the node accepts; no two yielded views
  give \<open>x\<close> the same binding.
\<close>

theorem get_views_skip_count:
  assumes "x \<in> set variables"
  shows "\<exists>combinations p1 views s1.
     get_combinations limit p variables node = Inr (combinations, p1) \<and>
     get_views can limit (read_one_and_skip x nxt) s p variables node = Inr (views, s1, p1) \<and>
     length views = card (surviving_bindings (can node) x combinations) \<and>
     distinct (map (\<lambda>vw. map_of vw x) views)"
proof -
  obtain combinations p1 where gc: "get_combinations limit p variables node = Inr (combinations, p1)"
    using get_combinations_total by blast
  obtain views s1 where l:
    "get_views_loop (can node) (read_one_and_skip x nxt) [] s combinations = (views, s1)"
    by (cases "get_views_loop (can node) (read_one_and_skip x nxt) [] s combinations")
  have gv: "get_views can limit (read_one_and_skip x nxt) s p variables node = Inr (views, s1, p1)"
    by (simp add: get_views_def gc l)
  have keys: "\<forall>c\<in>set combinations. \<exists>b. map_of (view_of c) x = Some b"
  proof
    fix c assume "c \<in> set combinations"
    with gc have "map variable c = variables" by (rule get_combinations_keys)
    then have "variable ` set c = set variables" by (metis set_map)
    with assms show "\<exists>b. map_of (view_of c) x = Some b" by (simp add: view_of_lookup)
  qed
  have "distinct (map (\<lambda>vw. map_of vw x) views) \<and>
        (\<lambda>vw. map_of vw x) ` set views = Some ` (surviving_bindings (can node) x combinations - {})"
    by (rule skip_loop [OF keys _ _ l]) simp_all
  then have d: "distinct (map (\<lambda>vw. map_of vw x) views)"
    and im: "set (map (\<lambda>vw. map_of vw x) views) = Some ` surviving_bindings (can node) x combinations"
    by simp_all
  have "length views = length (map (\<lambda>vw. map_of vw x) views)" by simp
  also have "\<dots> = card (set (map (\<lambda>vw. map_of vw x) views))"
    using d by (simp only: distinct_card)
  also have "\<dots> = card (surviving_bindings (can node) x combinations)"
    unfolding im by (simp add: card_image)
  finally show ?thesis using gc gv d by blast
qed

lemma bindings_two: "length (var_cells p x) = 2 \<Longrightarrow> bindings p x = [Binding x 0, Binding x 1]"
  by (simp add: bindings_def upt_rec)

lemma bindings_three:
  "length (var_cells p y) = 3 \<Longrightarrow> bindings p y = [Binding y 0, Binding y 1, Binding y 2]"
  by (simp add: bindings_def upt_rec)

lemma view_of_pair:
  "x \<noteq> y \<Longrightarrow> view_of [Binding x i, Binding y j] = [(x, Binding x i), (y, Binding y j)]"
  by (simp add: view_of_def)

text \<open>
  C2. Two distinct variables \<open>x\<close> and \<open>y\<close> of 2 and 3 bindings, a cap that the 6
  combinations do not exceed, and a consumer that never asks to skip: \<open>get_views\<close>
  yields 6 views when the node accepts every combination, and 5 when it rejects exactly
  one of them.
\<close>

theorem get_views_two_by_three:
  assumes "x \<noteq> y" and "length (var_cells p x) = 2" and "length (var_cells p y) = 3"
    and "6 \<le> limit"
  shows "\<exists>views s1.
     get_views can limit (never_skip keys nxt) s p [x, y] node = Inr (views, s1, p) \<and>
     ((\<forall>c \<in> set (product_lists [bindings p x, bindings p y]). can node c) \<longrightarrow> length views = 6) \<and>
     ((\<exists>c0 \<in> set (product_lists [bindings p x, bindings p y]).
         \<not> can node c0 \<and>
         (\<forall>c \<in> set (product_lists [bindings p x, bindings p y]). c \<noteq> c0 \<longrightarrow> can node c))
       \<longrightarrow> length views = 5)"
proof -
  define combos where "combos = product_lists [bindings p x, bindings p y]"
  have combos: "combos =
     [[Binding x 0, Binding y 0], [Binding x 0, Binding y 1], [Binding x 0, Binding y 2],
      [Binding x 1, Binding y 0], [Binding x 1, Binding y 1], [Binding x 1, Binding y 2]]"
    by (simp add: combos_def bindings_two [OF assms(2)] bindings_three [OF assms(3)])
  have "deep_variable_product limit p [x, y] = Inr combos"
    using assms(4) by (simp add: deep_variable_product_def combos_def
        bindings_two [OF assms(2)] bindings_three [OF assms(3)])
  then have gc: "get_combinations limit p [x, y] node = Inr (combos, p)"
    by (simp add: get_combinations_def)
  obtain views s1 where l:
    "get_views_loop (can node) (never_skip keys nxt) [] s combos = (views, s1)"
    by (cases "get_views_loop (can node) (never_skip keys nxt) [] s combos")
  have gv: "get_views can limit (never_skip keys nxt) s p [x, y] node = Inr (views, s1, p)"
    by (simp add: get_views_def gc l)
  have "views = map view_of (filter (\<lambda>c. can node (map snd (view_of c))) combos)"
    using l by (rule never_skip_loop)
  then have len: "length views = length (filter (\<lambda>c. can node (map snd (view_of c))) combos)"
    by simp
  have same: "c \<in> set combos \<Longrightarrow> map snd (view_of c) = c" for c
    unfolding combos using assms(1) by (auto simp: view_of_pair)
  have "filter (\<lambda>c. can node (map snd (view_of c))) combos = filter (can node) combos"
    by (rule filter_cong) (simp_all add: same)
  then have len': "length views = length (filter (can node) combos)"
    unfolding len by simp
  have six: "(\<forall>c \<in> set combos. can node c) \<longrightarrow> length views = 6"
    unfolding len' combos by simp
  have five: "(\<exists>c0 \<in> set combos. \<not> can node c0 \<and> (\<forall>c \<in> set combos. c \<noteq> c0 \<longrightarrow> can node c))
       \<longrightarrow> length views = 5"
    unfolding len' combos by auto
  from gv six five show ?thesis unfolding combos_def by blast
qed


lemma two_three_cells:
  "length (var_cells two_three 0) = 2" "length (var_cells two_three (Suc 0)) = 3"
  "bindings two_three 0 = [Binding 0 0, Binding 0 1]"
  "bindings two_three (Suc 0) = [Binding (Suc 0) 0, Binding (Suc 0) 1, Binding (Suc 0) 2]"
  by (simp_all add: two_three_def bindings_def upt_rec)

text \<open>
  The program of 2 and 3 bindings, with a node that accepts everything, and with a node
  that rejects the one combination of the last binding of each variable.
\<close>

theorem get_views_two_by_three_witness:
  "(\<exists>views s1.
      get_views (\<lambda>node c. True) 1024 (never_skip (\<lambda>s vw. [0, 1]) (\<lambda>s vw. s)) () two_three [0, 1]
        root_node = Inr (views, s1, two_three) \<and> length views = 6) \<and>
   (\<exists>views s1.
      get_views (\<lambda>node c. c \<noteq> [Binding 0 1, Binding 1 2]) 1024
        (never_skip (\<lambda>s vw. [0, 1]) (\<lambda>s vw. s)) () two_three [0, 1]
        root_node = Inr (views, s1, two_three) \<and> length views = 5)"
proof -
  have h: "(0::nat) \<noteq> 1" "length (var_cells two_three 0) = 2" "length (var_cells two_three 1) = 3"
    "(6::nat) \<le> 1024"
    by (simp_all add: two_three_cells)
  have a: "\<forall>c \<in> set (product_lists [bindings two_three 0, bindings two_three 1]). True"
    by simp
  have b: "\<exists>c0 \<in> set (product_lists [bindings two_three 0, bindings two_three 1]).
             \<not> c0 \<noteq> [Binding 0 1, Binding 1 2] \<and>
             (\<forall>c \<in> set (product_lists [bindings two_three 0, bindings two_three 1]).
                c \<noteq> c0 \<longrightarrow> c \<noteq> [Binding 0 1, Binding 1 2])"
    by (simp add: two_three_cells)
  from get_views_two_by_three [OF h, of "\<lambda>node c. True" "\<lambda>s vw. [0, 1]" "\<lambda>s vw. s" "()" root_node] a
  have one: "\<exists>views s1.
      get_views (\<lambda>node c. True) 1024 (never_skip (\<lambda>s vw. [0, 1]) (\<lambda>s vw. s)) () two_three [0, 1]
        root_node = Inr (views, s1, two_three) \<and> length views = 6"
    by blast
  from get_views_two_by_three [OF h, of "\<lambda>node c. c \<noteq> [Binding 0 1, Binding 1 2]"
         "\<lambda>s vw. [0, 1]" "\<lambda>s vw. s" "()" root_node] b
  have two: "\<exists>views s1.
      get_views (\<lambda>node c. c \<noteq> [Binding 0 1, Binding 1 2]) 1024
        (never_skip (\<lambda>s vw. [0, 1]) (\<lambda>s vw. s)) () two_three [0, 1]
        root_node = Inr (views, s1, two_three) \<and> length views = 5"
    by blast
  from one two show ?thesis by (rule conjI)
qed

text \<open>
  Variables of 2 and 3 bindings at a node that accepts everything: a consumer that
  reads variable 0 and always skips sees 2 views, not 6.
\<close>

theorem get_views_skip_count_witness:
  "\<exists>views s1.
     get_views (\<lambda>node c. True) 1024 (read_one_and_skip 0 (\<lambda>s vw. s)) () two_three [0, 1] root_node
       = Inr (views, s1, two_three) \<and>
     length views = 2 \<and> distinct (map (\<lambda>vw. map_of vw 0) views)"
proof -
  have gc: "get_combinations 1024 two_three [0, 1] root_node =
     Inr ([[Binding 0 0, Binding 1 0], [Binding 0 0, Binding 1 1], [Binding 0 0, Binding 1 2],
           [Binding 0 1, Binding 1 0], [Binding 0 1, Binding 1 1], [Binding 0 1, Binding 1 2]],
          two_three)"
    by (simp add: get_combinations_def deep_variable_product_def two_three_cells)
  have "surviving_bindings (\<lambda>c. True) 0
          [[Binding 0 0, Binding 1 0], [Binding 0 0, Binding 1 1], [Binding 0 0, Binding 1 2],
           [Binding 0 1, Binding 1 0], [Binding 0 1, Binding 1 1], [Binding 0 1, Binding 1 2]]
        = {Binding 0 0, Binding 0 1}"
    by (auto simp: surviving_Cons view_of_def surviving_bindings_def)
  then have card: "card (surviving_bindings (\<lambda>c. True) 0
          [[Binding 0 0, Binding 1 0], [Binding 0 0, Binding 1 1], [Binding 0 0, Binding 1 2],
           [Binding 0 1, Binding 1 0], [Binding 0 1, Binding 1 1], [Binding 0 1, Binding 1 2]]) = 2"
    by simp
  have h: "(0::nat) \<in> set [0, 1]" by simp
  from get_views_skip_count [OF h, of 1024 two_three root_node "\<lambda>node c. True" "\<lambda>s vw. s" "()"]
  show ?thesis unfolding gc using card by auto
qed

text \<open>
  Two variables with 2 and 3 bindings under a cap of 5 combinations: the product of 6
  is too complex, and the one view yielded maps each variable to its new binding.
\<close>

theorem get_views_too_complex_witness:
  "deep_variable_product 5 two_three [0, 1] = Inl TooComplexError \<and>
   get_views (\<lambda>node c. True) 5 (never_skip (\<lambda>s vw. [0, 1]) (\<lambda>s vw. s)) () two_three [0, 1] root_node =
     Inr ([[(0, Binding 0 2), (1, Binding 1 3)]], (),
          snd (add_default_bindings two_three [0, 1] root_node))"
proof -
  have h: "deep_variable_product 5 two_three [0, 1] = Inl TooComplexError"
    by (simp add: deep_variable_product_def two_three_cells)
  have a: "add_default_bindings two_three [0, 1] root_node =
     ([Binding 0 2, Binding 1 3], snd (add_default_bindings two_three [0, 1] root_node))"
    by (simp add: AddBinding_def two_three_def)
  from get_views_too_complex [OF h, of root_node "\<lambda>node c. True"
         "never_skip (\<lambda>s vw. [0, 1]) (\<lambda>s vw. s)" "()"]
  obtain combination p1 views s1 where
    gc: "get_combinations 5 two_three [0, 1] root_node = Inr ([combination], p1)"
    and gv: "get_views (\<lambda>node c. True) 5 (never_skip (\<lambda>s vw. [0, 1]) (\<lambda>s vw. s)) () two_three [0, 1]
               root_node = Inr (views, s1, p1)"
    and vs: "views = [view_of combination]"
    by auto
  from gc h a have c: "combination = [Binding 0 2, Binding 1 3]"
    and p1: "p1 = snd (add_default_bindings two_three [0, 1] root_node)"
    by (simp_all add: get_combinations_def split: prod.splits)
  have "view_of combination = [(0, Binding 0 2), (1, Binding 1 3)]"
    by (simp add: c view_of_def)
  with gv vs p1 h show ?thesis by simp
qed

text \<open>With no variables, at a node that rejects the empty combination: no view.\<close>

theorem get_views_no_variables_witness:
  "get_views (\<lambda>node c. c \<noteq> []) 1024 (never_skip (\<lambda>s vw. []) (\<lambda>s vw. s)) () two_three [] root_node =
     Inr ([], (), two_three)"
  using get_views_no_variables
          [of "\<lambda>node c. c \<noteq> []" 1024 "never_skip (\<lambda>s vw. []) (\<lambda>s vw. s)" "()" two_three root_node]
  by simp


lemma run_generator_AddBinding:
  "run_generator AddBinding p variables node = add_default_bindings p variables node"
  by (induction variables arbitrary: p) simp_all

lemma gen_loop_materialised:
  "get_views_gen_loop add can node consumer seen s p (map Materialised cs) =
     (case get_views_loop (can node) consumer seen s cs of (views, s1) \<Rightarrow> (views, s1, p))"
  by (induction cs arbitrary: seen s) (simp_all add: Let_def split: prod.splits)

lemma get_views_gen_AddBinding:
  "get_views_gen AddBinding can limit consumer s p variables node =
     get_views can limit consumer s p variables node"
proof (cases "deep_variable_product limit p variables")
  case (Inr combinations)
  then show ?thesis
    by (simp add: get_views_gen_def get_views_def get_combinations_def gen_loop_materialised
          split: prod.splits)
next
  case (Inl e)
  then have e: "e = TooComplexError"
    by (auto simp: deep_variable_product_def split: if_splits)
  obtain bs p1 where r: "add_default_bindings p variables node = (bs, p1)"
    by (cases "add_default_bindings p variables node")
  show ?thesis
    using Inl e r
    by (simp add: get_views_gen_def get_views_def get_combinations_def run_generator_AddBinding
          Let_def split: prod.splits)
qed




subsection \<open>\<^verbatim>\<open>_init_abstract_methods\<close>\<close>

lemma step_agree:
  assumes "\<not> is_Class (h c) \<or> (initialised h c \<and> declares_own h c)"
  shows "sweep_step h running c = declared_step h running c"
  using assms unfolding sweep_step_def declared_step_def initialised_def declares_own_def
  by (cases "is_Class (h c)") auto

lemma foldl_agree:
  assumes "\<forall>c \<in> set cs. \<not> is_Class (h c) \<or> (initialised h c \<and> declares_own h c)"
  shows "foldl (sweep_step h) running cs = foldl (declared_step h) running cs"
  using assms by (induction cs arbitrary: running) (simp_all add: step_agree)

lemma foldl_declared_cong:
  assumes "\<And>c. is_Class (h c) = is_Class (h' c)" "\<And>c. members (h c) = members (h' c)"
    "\<And>c. own_abstract_methods (h c) = own_abstract_methods (h' c)"
  shows "foldl (declared_step h) running cs = foldl (declared_step h') running cs"
proof -
  have "declared_step h = declared_step h'"
    by (intro ext) (simp add: declared_step_def assms)
  then show ?thesis by simp
qed

lemma init_abstract_methods_eq:
  assumes "\<forall>c \<in> set (class_mro (h self)).
             c \<noteq> self \<longrightarrow> \<not> is_Class (h c) \<or> (initialised h c \<and> declares_own h c)"
    and "declares_own h self"
  shows "abstract_methods (init_abstract_methods h self self) = declared_sweep h self"
proof -
  define h1 where "h1 = h(self := (h self)\<lparr>abstract_methods := own_abstract_methods (h self)\<rparr>)"
  have mro1: "class_mro (h1 self) = class_mro (h self)" by (simp add: h1_def)
  have ok: "\<forall>c \<in> set (rev (class_mro (h self))).
              \<not> is_Class (h1 c) \<or> (initialised h1 c \<and> declares_own h1 c)"
  proof
    fix c assume c: "c \<in> set (rev (class_mro (h self)))"
    show "\<not> is_Class (h1 c) \<or> (initialised h1 c \<and> declares_own h1 c)"
    proof (cases "c = self")
      case True
      with assms(2) show ?thesis by (simp add: h1_def initialised_def declares_own_def)
    next
      case False
      with c assms(1) show ?thesis by (simp add: h1_def initialised_def declares_own_def)
    qed
  qed
  have "abstract_methods (init_abstract_methods h self self) =
          foldl (sweep_step h1) {} (rev (class_mro (h self)))"
    by (simp add: init_abstract_methods_def Let_def h1_def)
  also have "\<dots> = foldl (declared_step h1) {} (rev (class_mro (h self)))"
    using ok by (rule foldl_agree)
  also have "\<dots> = foldl (declared_step h) {} (rev (class_mro (h self)))"
    by (rule foldl_declared_cong) (simp_all add: h1_def)
  finally show ?thesis by (simp add: declared_sweep_def)
qed

lemma init_abstract_methods_frame: "c \<noteq> self \<Longrightarrow> init_abstract_methods h self c = h c"
  by (simp add: init_abstract_methods_def Let_def)

lemma init_abstract_methods_initialised:
  assumes "class_mro (h self) = self # rest" and "is_Class (h self)"
  shows "initialised (init_abstract_methods h self) self"
proof -
  define h1 where "h1 = h(self := (h self)\<lparr>abstract_methods := own_abstract_methods (h self)\<rparr>)"
  define r where "r = foldl (sweep_step h1) {} (rev rest)"
  have "abstract_methods (init_abstract_methods h self self) = sweep_step h1 r self"
    by (simp add: init_abstract_methods_def Let_def h1_def r_def assms(1))
  moreover have "members (init_abstract_methods h self self) = members (h self)"
    "own_abstract_methods (init_abstract_methods h self self) = own_abstract_methods (h self)"
    by (simp_all add: init_abstract_methods_def Let_def)
  moreover have "sweep_step h1 r self \<inter> members (h self) =
                 own_abstract_methods (h self) \<inter> members (h self)"
    using assms(2) by (auto simp: sweep_step_def h1_def)
  ultimately show ?thesis by (simp add: initialised_def)
qed

lemma example_values:
  "abstract_methods (example_initialised ''Leaf'') = {}"
  "abstract_methods (example_initialised ''Leaf2'') = {''f''}"
  by (auto simp: example_initialised_def example_ancestors_def init_abstract_methods_def Let_def example_classes_def
        new_class_def sweep_step_def)

text \<open>
  C7. The abstract-method set that \<open>_init_abstract_methods\<close> assigns to a class is
  the result of one sweep over its linearization, from the most general ancestor to the
  class itself, in which a class that declares a name of the running set removes it
  unless it marks it abstract again, and adds its own abstract methods. This holds
  when the other classes of the linearization have been initialised and every class
  declares its own abstract methods. The call changes no other class, and leaves the
  class itself initialised when it heads its own linearization. In the example,
  \<^verbatim>\<open>Leaf(Mid)\<close> ends with no abstract method and \<^verbatim>\<open>Leaf2(Base)\<close> with \<^verbatim>\<open>f\<close>.
\<close>

theorem abstract_methods_sweep:
  assumes "\<forall>c \<in> set (class_mro (h self)).
             c \<noteq> self \<longrightarrow> \<not> is_Class (h c) \<or> (initialised h c \<and> declares_own h c)"
    and "declares_own h self"
  shows "abstract_methods (init_abstract_methods h self self) = declared_sweep h self \<and>
         (\<forall>c. c \<noteq> self \<longrightarrow> init_abstract_methods h self c = h c) \<and>
         (is_Class (h self) \<and> (\<exists>rest. class_mro (h self) = self # rest) \<longrightarrow>
            initialised (init_abstract_methods h self) self) \<and>
         abstract_methods (example_initialised ''Leaf'') = {} \<and>
         abstract_methods (example_initialised ''Leaf2'') = {''f''}"
proof (intro conjI)
  show "abstract_methods (init_abstract_methods h self self) = declared_sweep h self"
    using assms by (rule init_abstract_methods_eq)
  show "\<forall>c. c \<noteq> self \<longrightarrow> init_abstract_methods h self c = h c"
    by (simp add: init_abstract_methods_frame)
  show "is_Class (h self) \<and> (\<exists>rest. class_mro (h self) = self # rest) \<longrightarrow>
          initialised (init_abstract_methods h self) self"
    using init_abstract_methods_initialised [of h self] by blast
  show "abstract_methods (example_initialised ''Leaf'') = {}"
    by (rule example_values)
  show "abstract_methods (example_initialised ''Leaf2'') = {''f''}"
    by (rule example_values)
qed

text \<open>
  The sweep for \<^verbatim>\<open>Leaf\<close>, once \<^verbatim>\<open>object\<close>, \<^verbatim>\<open>Base\<close> and \<^verbatim>\<open>Mid\<close> are
  initialised: \<^verbatim>\<open>Base\<close> adds \<^verbatim>\<open>f\<close>, \<^verbatim>\<open>Mid\<close> removes it.
\<close>

theorem abstract_methods_sweep_witness:
  "abstract_methods (init_abstract_methods example_ancestors ''Leaf'' ''Leaf'') =
     declared_sweep example_ancestors ''Leaf'' \<and>
   declared_sweep example_ancestors ''Leaf'' = {} \<and>
   initialised (init_abstract_methods example_ancestors ''Leaf'') ''Leaf''"
proof -
  have mro: "class_mro (example_ancestors ''Leaf'') = [''Leaf'', ''Mid'', ''Base'', ''object'']"
    and cls: "is_Class (example_ancestors ''Leaf'')"
    by (simp_all add: example_ancestors_def init_abstract_methods_def Let_def example_classes_def
          new_class_def)
  have a: "\<forall>c \<in> set (class_mro (example_ancestors ''Leaf'')).
             c \<noteq> ''Leaf'' \<longrightarrow> \<not> is_Class (example_ancestors c) \<or>
               (initialised example_ancestors c \<and> declares_own example_ancestors c)"
    unfolding mro
    by (auto simp: example_ancestors_def init_abstract_methods_def Let_def example_classes_def
          new_class_def sweep_step_def initialised_def declares_own_def)
  have b: "declares_own example_ancestors ''Leaf''"
    by (simp add: example_ancestors_def init_abstract_methods_def Let_def example_classes_def
          new_class_def declares_own_def)
  have c: "declared_sweep example_ancestors ''Leaf'' = {}"
    unfolding declared_sweep_def mro
    by (auto simp: example_ancestors_def init_abstract_methods_def Let_def example_classes_def
          new_class_def declared_step_def)
  from abstract_methods_sweep [OF a b] mro cls c show ?thesis by simp
qed

subsection \<open>\<^verbatim>\<open>compute_mro\<close>\<close>

lemma add_base_unwrap:
  "add_base (m, bl) b = (m(unwrap b \<mapsto> b), bl @ [unwrap b])"
  by (cases b) (simp_all add: add_base_def)

lemma foldl_add_base:
  "foldl add_base (m, bl) row =
     (foldl (\<lambda>m b. m(unwrap b \<mapsto> b)) m row, bl @ map unwrap row)"
  by (induction row arbitrary: m bl) (simp_all add: add_base_unwrap)

lemma foldl_add_row:
  "foldl add_row (m, nb) rows =
     (foldl (\<lambda>m b. m(unwrap b \<mapsto> b)) m (concat rows), nb @ map (map unwrap) rows)"
  by (induction rows arbitrary: m nb) (simp_all add: add_row_def foldl_add_base)

lemma foldl_upd_last:
  "foldl (\<lambda>m b. m(unwrap b \<mapsto> b)) m bs u =
     (if filter (\<lambda>b. unwrap b = u) bs = [] then m u
      else Some (last (filter (\<lambda>b. unwrap b = u) bs)))"
  by (induction bs rule: rev_induct) simp_all

lemma lookup_all_Some:
  "\<forall>k \<in> set ks. \<exists>v. d k = Some v \<Longrightarrow> lookup_all d ks = Inr (map (\<lambda>k. the (d k)) ks)"
  by (induction ks) auto

text \<open>
  C4, as amended. When the merge over the unwrapped classes succeeds with classes of its
  input, \<open>compute_mro\<close> returns the merged list with each class replaced by a class of
  the input rows that it is the unwrapped form of: a \<^verbatim>\<open>ParameterizedClass\<close> wrapper
  or the class itself. When several classes of the input rows have the same unwrapped
  form, the last one met (row by row, the list of direct bases being the last row) is the
  one restored.
\<close>

theorem compute_mro_last_association:
  assumes "merge (map (map unwrap) (mro_rows mro_of unsolvable self base_vars)) = Inr merged"
    and "set merged \<subseteq> unwrap ` set (concat (mro_rows mro_of unsolvable self base_vars))"
  shows "compute_mro merge mro_of unsolvable self base_vars =
           Inr (map (\<lambda>u. the (last_association (mro_rows mro_of unsolvable self base_vars) u)) merged)
         \<and> list_all (\<lambda>u. \<exists>b. last_association (mro_rows mro_of unsolvable self base_vars) u = Some b
                           \<and> unwrap b = u) merged"
proof -
  define rows where "rows = mro_rows mro_of unsolvable self base_vars"
  define d where "d = foldl (\<lambda>m b. m(unwrap b \<mapsto> b)) Map.empty (concat rows)"
  have d: "d u = last_association rows u" for u
    unfolding d_def last_association_def foldl_upd_last by (simp split: list.splits)
  have ex: "\<exists>b. last_association rows u = Some b \<and> unwrap b = u" if "u \<in> set merged" for u
  proof -
    from that assms(2) obtain b where "b \<in> set (concat rows)" "unwrap b = u"
      unfolding rows_def by blast
    then have ne: "filter (\<lambda>b. unwrap b = u) (concat rows) \<noteq> []"
      by (auto simp: filter_empty_conv)
    then have "last (filter (\<lambda>b. unwrap b = u) (concat rows))
                 \<in> set (filter (\<lambda>b. unwrap b = u) (concat rows))"
      by (rule last_in_set)
    with ne show ?thesis by (auto simp: last_association_def split: list.splits)
  qed
  have "compute_mro merge mro_of unsolvable self base_vars = lookup_all d merged"
    using assms(1) by (simp add: compute_mro_def foldl_add_row rows_def d_def)
  also have "\<dots> = Inr (map (\<lambda>k. the (d k)) merged)"
    by (rule lookup_all_Some) (use ex d in auto)
  finally show ?thesis using ex by (simp add: d rows_def list_all_iff)
qed


lemma example_rows:
  "mro_rows example_mro (PlainClass ''?'') (PlainClass ''C'') example_bases =
     [[PlainClass ''C''],
      [PlainClass ''B'', ParameterizedClass (PlainClass ''A'') [(''T'', ''str'')], PlainClass ''object''],
      [ParameterizedClass (PlainClass ''A'') [(''T'', ''int'')], PlainClass ''object''],
      [PlainClass ''B'', ParameterizedClass (PlainClass ''A'') [(''T'', ''int'')]]]"
  by (simp add: mro_rows_def get_mro_bases_def example_bases_def get_atomic_value_def example_mro_def)

lemma example_merge:
  "(MROMerge
     [[PlainClass ''C''],
      [PlainClass ''B'', PlainClass ''A'', PlainClass ''object''],
      [PlainClass ''A'', PlainClass ''object''],
      [PlainClass ''B'', PlainClass ''A'']] :: unit error + mro_class list) =
   Inr [PlainClass ''C'', PlainClass ''B'', PlainClass ''A'', PlainClass ''object'']"
  by code_simp

text \<open>
  C4, as stated, fails: for \<^verbatim>\<open>class B(A[str])\<close> and \<^verbatim>\<open>class C(B, A[int])\<close>, the
  first class met for \<^verbatim>\<open>A\<close> is \<^verbatim>\<open>A[str]\<close>, in the linearization of \<^verbatim>\<open>B\<close>,
  and the linearization of \<^verbatim>\<open>C\<close> holds \<^verbatim>\<open>A[int]\<close>.
\<close>

theorem compute_mro_first_association_counterexample:
  "compute_mro MROMerge example_mro (PlainClass ''?'') (PlainClass ''C'') example_bases =
     (Inr [PlainClass ''C'', PlainClass ''B'',
           ParameterizedClass (PlainClass ''A'') [(''T'', ''int'')], PlainClass ''object'']
      :: unit error + mro_class list) \<and>
   first_association (mro_rows example_mro (PlainClass ''?'') (PlainClass ''C'') example_bases)
     (PlainClass ''A'') = Some (ParameterizedClass (PlainClass ''A'') [(''T'', ''str'')])"
  by (simp add: compute_mro_def example_rows add_row_def add_base_def example_merge
        first_association_def)

text \<open>
  The same classes: the last class met for \<^verbatim>\<open>A\<close> is \<^verbatim>\<open>A[int]\<close>.
\<close>

theorem compute_mro_last_association_witness:
  "compute_mro MROMerge example_mro (PlainClass ''?'') (PlainClass ''C'') example_bases =
     (Inr [PlainClass ''C'', PlainClass ''B'',
           ParameterizedClass (PlainClass ''A'') [(''T'', ''int'')], PlainClass ''object'']
      :: unit error + mro_class list) \<and>
   last_association (mro_rows example_mro (PlainClass ''?'') (PlainClass ''C'') example_bases)
     (PlainClass ''A'') = Some (ParameterizedClass (PlainClass ''A'') [(''T'', ''int'')])"
proof -
  let ?merged = "[PlainClass ''C'', PlainClass ''B'', PlainClass ''A'', PlainClass ''object'']"
  have m: "(MROMerge (map (map unwrap)
              (mro_rows example_mro (PlainClass ''?'') (PlainClass ''C'') example_bases))
            :: unit error + mro_class list) = Inr ?merged"
    by (simp add: example_rows example_merge)
  have s: "set ?merged \<subseteq> unwrap ` set (concat
              (mro_rows example_mro (PlainClass ''?'') (PlainClass ''C'') example_bases))"
    by (simp add: example_rows)
  from compute_mro_last_association
         [where merge = "MROMerge :: mro_class list list \<Rightarrow> unit error + mro_class list"
            and mro_of = example_mro and unsolvable = "PlainClass ''?''"
            and self = "PlainClass ''C''" and base_vars = example_bases, OF m s]
  show ?thesis by (simp add: example_rows last_association_def)
qed


subsection \<open>\<^verbatim>\<open>compute_template\<close>\<close>






















end
